theory Spec2Isabelle
  imports Main "HOL-Library.Sublist" "HOL-Library.AList"
begin

section \<open>Negative prompting: constraint evaluation and the single refinement step\<close>

text \<open>
  The development embeds the evaluation cell of \<^verbatim>\<open>negative-prompting.ipynb\<close>
  (section 4 of the notebook) together with the generation cell it depends on (section 3).

  A Python \<^verbatim>\<open>str\<close> is a sequence of code points. Here a character is a \<^typ>\<open>char\<close>, read
  as a code point below 256 (Latin-1); on that range the tables below are the ones of
  \<^verbatim>\<open>str.isspace\<close>, \<^verbatim>\<open>str.lower\<close> and the \<^verbatim>\<open>\w\<close> class of \<^verbatim>\<open>re\<close> for \<^verbatim>\<open>str\<close> patterns,
  and \<^verbatim>\<open>str.lower\<close> maps every character to exactly one character.
\<close>

subsection \<open>Characters\<close>

definition isspace :: "char \<Rightarrow> bool" where
  \<comment> \<open>\<^verbatim>\<open>str.isspace\<close> on one character: TAB..CR, FS..US, SPACE, NEL, NBSP.\<close>
  "isspace c =
     (let n = (of_char c :: nat)
      in (9 \<le> n \<and> n \<le> 13) \<or> (28 \<le> n \<and> n \<le> 32) \<or> n = 133 \<or> n = 160)"

definition lower_char :: "char \<Rightarrow> char" where
  \<comment> \<open>\<^verbatim>\<open>str.lower\<close> on one character: A..Z and the Latin-1 capitals (not the
      multiplication sign, 215) move up by 32.\<close>
  "lower_char c =
     (let n = (of_char c :: nat)
      in if (65 \<le> n \<and> n \<le> 90) \<or> (192 \<le> n \<and> n \<le> 222 \<and> n \<noteq> 215)
         then char_of (n + 32) else c)"

definition is_word :: "char \<Rightarrow> bool" where
  \<comment> \<open>The class \<^verbatim>\<open>\w\<close> of a \<^verbatim>\<open>str\<close> pattern: \<^verbatim>\<open>isalnum\<close> or underscore.\<close>
  "is_word c =
     (let n = (of_char c :: nat)
      in (48 \<le> n \<and> n \<le> 57) \<or> (65 \<le> n \<and> n \<le> 90) \<or> n = 95 \<or> (97 \<le> n \<and> n \<le> 122)
         \<or> n = 170 \<or> n = 178 \<or> n = 179 \<or> n = 181 \<or> n = 185 \<or> n = 186
         \<or> (188 \<le> n \<and> n \<le> 190) \<or> (192 \<le> n \<and> n \<le> 214) \<or> (216 \<le> n \<and> n \<le> 246)
         \<or> (248 \<le> n \<and> n \<le> 255))"

subsection \<open>The string operations the predicates call\<close>

definition str_lower :: "string \<Rightarrow> string" where
  \<comment> \<open>\<^verbatim>\<open>x.lower()\<close>\<close>
  "str_lower x = map lower_char x"

fun split_from :: "string \<Rightarrow> string \<Rightarrow> string list" where
  \<comment> \<open>The scan of \<^verbatim>\<open>x.split()\<close>: \<open>cur\<close> is the word being read.\<close>
  "split_from cur [] = (if cur = [] then [] else [cur])"
| "split_from cur (c # cs) =
     (if isspace c
      then (if cur = [] then split_from [] cs else cur # split_from [] cs)
      else split_from (cur @ [c]) cs)"

definition str_split :: "string \<Rightarrow> string list" where
  \<comment> \<open>\<^verbatim>\<open>x.split()\<close>: the maximal runs of non-whitespace characters, in order.\<close>
  "str_split x = split_from [] x"

fun str_contains :: "string \<Rightarrow> string \<Rightarrow> bool" where
  \<comment> \<open>\<^verbatim>\<open>word in s\<close> for two strings: \<open>word\<close> starts at some position of \<open>s\<close>.\<close>
  "str_contains word [] = (word = [])"
| "str_contains word (c # cs) = (prefix word (c # cs) \<or> str_contains word cs)"

subsection \<open>The constraints \<^verbatim>\<open>word_count\<close> and \<^verbatim>\<open>no_excluded_words\<close>\<close>

definition word_count :: "string \<Rightarrow> bool" where
  \<comment> \<open>\<^verbatim>\<open>lambda x: len(x.split()) <= 100\<close>\<close>
  "word_count x = (length (str_split x) \<le> 100)"

definition forbidden_words :: "string list" where
  \<comment> \<open>The list literal of the \<^verbatim>\<open>no_excluded_words\<close> lambda.\<close>
  "forbidden_words = [''robot'', ''human-like'', ''science fiction'']"

definition no_excluded_words :: "string \<Rightarrow> bool" where
  \<comment> \<open>\<^verbatim>\<open>lambda x: all(word not in x.lower() for word in ["robot", "human-like", "science fiction"])\<close>\<close>
  "no_excluded_words x = list_all (\<lambda>word. \<not> str_contains word (str_lower x)) forbidden_words"

subsection \<open>The regular expression of \<^verbatim>\<open>no_analogies\<close>\<close>

text \<open>
  The fragment of \<^verbatim>\<open>re\<close> that the pattern \<^verbatim>\<open>\b(as|like)\b\<close> needs: literals, the word
  boundary, alternation and concatenation (a group only brackets). The matcher is the
  backtracking one: for a start position it lists the end positions of the matches, in
  the order they are tried.
\<close>

datatype regex = Eps | Lit char | WordBoundary | Alt regex regex | Seq regex regex

fun literal :: "string \<Rightarrow> regex" where
  "literal [] = Eps"
| "literal (c # cs) = Seq (Lit c) (literal cs)"

definition at_boundary :: "string \<Rightarrow> nat \<Rightarrow> bool" where
  \<comment> \<open>\<^verbatim>\<open>\b\<close> at position \<open>i\<close>: exactly one of the characters before and at \<open>i\<close> is a
      word character; outside the string there is none.\<close>
  "at_boundary s i =
     (let that = (0 < i \<and> is_word (s ! (i - 1)));
          this = (i < length s \<and> is_word (s ! i))
      in this \<noteq> that)"

fun ends :: "bool \<Rightarrow> regex \<Rightarrow> string \<Rightarrow> nat \<Rightarrow> nat list" where
  \<comment> \<open>\<open>ic\<close> is the flag \<^verbatim>\<open>re.IGNORECASE\<close>: a literal then compares lower-cased characters.\<close>
  "ends ic Eps s i = [i]"
| "ends ic (Lit c) s i =
     (if i < length s \<and> (if ic then lower_char (s ! i) = lower_char c else s ! i = c)
      then [Suc i] else [])"
| "ends ic WordBoundary s i = (if at_boundary s i then [i] else [])"
| "ends ic (Alt a b) s i = ends ic a s i @ ends ic b s i"
| "ends ic (Seq a b) s i = concat (map (ends ic b s) (ends ic a s i))"

fun search_at :: "bool \<Rightarrow> regex \<Rightarrow> string \<Rightarrow> nat list \<Rightarrow> (nat \<times> nat) option" where
  "search_at ic r s [] = None"
| "search_at ic r s (i # is) =
     (case ends ic r s i of [] \<Rightarrow> search_at ic r s is | e # _ \<Rightarrow> Some (i, e))"

definition re_search :: "bool \<Rightarrow> regex \<Rightarrow> string \<Rightarrow> (nat \<times> nat) option" where
  \<comment> \<open>\<^verbatim>\<open>re.search(pattern, s, flags)\<close>: the span of the leftmost match, or \<^verbatim>\<open>None\<close>.\<close>
  "re_search ic r s = search_at ic r s [0..<Suc (length s)]"

definition analogy_pattern :: regex where
  \<comment> \<open>\<^verbatim>\<open>r"\b(as|like)\b"\<close>\<close>
  "analogy_pattern =
     Seq WordBoundary (Seq (Alt (literal ''as'') (literal ''like'')) WordBoundary)"

definition no_analogies :: "string \<Rightarrow> bool" where
  \<comment> \<open>\<^verbatim>\<open>lambda x: not re.search(r"\b(as|like)\b", x, re.IGNORECASE)\<close>; a match object is
      true, \<^verbatim>\<open>None\<close> is false.\<close>
  "no_analogies x = (re_search True analogy_pattern x = None)"

subsection \<open>The evaluator\<close>

datatype error = KeyError string | AttributeError | RuntimeError | Raised string

type_synonym check = "string \<Rightarrow> error + bool"

fun evaluate_loop ::
  "string \<Rightarrow> (string \<times> check) list \<Rightarrow> (string \<times> bool) list \<Rightarrow> error + (string \<times> bool) list" where
  \<comment> \<open>The \<^verbatim>\<open>for\<close> loop over \<^verbatim>\<open>constraints.items()\<close>. A dictionary is the list of its
      items in insertion order; \<^verbatim>\<open>results[constraint] = v\<close> replaces the value of a key
      that is there and appends a new key. An exception of a check leaves the loop.\<close>
  "evaluate_loop output [] results = Inr results"
| "evaluate_loop output ((constraint, check_func) # rest) results =
     (case check_func output of
        Inl e \<Rightarrow> Inl e
      | Inr v \<Rightarrow> evaluate_loop output rest (AList.update constraint v results))"

definition evaluate_output ::
  "string \<Rightarrow> (string \<times> check) list \<Rightarrow> error + (string \<times> bool) list" where
  "evaluate_output output constraints = evaluate_loop output constraints []"

subsection \<open>The evaluator on a store\<close>

text \<open>
  Python passes references. To state what a call writes, the same function is given once
  more on a store of objects: an address is an index into the list of allocated objects,
  a new object goes to the end. The loop reads the dictionary through its address at
  every step, as the iterator of \<^verbatim>\<open>constraints.items()\<close> does (it raises
  \<^verbatim>\<open>RuntimeError\<close> when the size has changed), and writes through the address of
  \<^verbatim>\<open>results\<close>.
\<close>

datatype object =
  StrObj string
| ConstraintDict "(string \<times> check) list"
| ResultDict "(string \<times> bool) list"

type_synonym addr = nat
type_synonym heap = "object list"

definition fetch :: "heap \<Rightarrow> addr \<Rightarrow> object option" where
  "fetch h a = (if a < length h then Some (h ! a) else None)"

fun evaluate_loop_at ::
  "addr \<Rightarrow> addr \<Rightarrow> addr \<Rightarrow> nat \<Rightarrow> nat list \<Rightarrow> heap \<Rightarrow> error + heap" where
  \<comment> \<open>\<open>n\<close> is the size of the dictionary when the iteration began, the list holds the
      indices of the items still to visit (all below \<open>n\<close>).\<close>
  "evaluate_loop_at output constraints results n [] h = Inr h"
| "evaluate_loop_at output constraints results n (k # ks) h =
     (case fetch h constraints of
        Some (ConstraintDict items) \<Rightarrow>
          if length items \<noteq> n \<or> n \<le> k then Inl RuntimeError
          else (case items ! k of (constraint, check_func) \<Rightarrow>
            (case fetch h output of
               Some (StrObj x) \<Rightarrow>
                 (case check_func x of
                    Inl e \<Rightarrow> Inl e
                  | Inr v \<Rightarrow>
                      (case fetch h results of
                         Some (ResultDict d) \<Rightarrow>
                           evaluate_loop_at output constraints results n ks
                             (h[results := ResultDict (AList.update constraint v d)])
                       | _ \<Rightarrow> Inl AttributeError))
             | _ \<Rightarrow> Inl AttributeError))
      | _ \<Rightarrow> Inl AttributeError)"

definition evaluate_output_at :: "addr \<Rightarrow> addr \<Rightarrow> heap \<Rightarrow> error + (addr \<times> heap)" where
  \<comment> \<open>\<^verbatim>\<open>results = {}\<close> allocates; the call returns the address of \<^verbatim>\<open>results\<close>.\<close>
  "evaluate_output_at output constraints h =
     (let results = length h; h1 = h @ [ResultDict []]
      in case fetch h1 constraints of
           Some (ConstraintDict items) \<Rightarrow>
             (case evaluate_loop_at output constraints results (length items)
                     [0..<length items] h1 of
                Inl e \<Rightarrow> Inl e
              | Inr h2 \<Rightarrow> Inr (results, h2))
         | _ \<Rightarrow> Inl AttributeError)"

subsection \<open>The constraint set\<close>

definition constraints :: "(string \<times> check) list" where
  "constraints =
     [(''word_count'', \<lambda>x. Inr (word_count x)),
      (''no_excluded_words'', \<lambda>x. Inr (no_excluded_words x)),
      (''no_analogies'', \<lambda>x. Inr (no_analogies x))]"

definition all_values :: "(string \<times> bool) list \<Rightarrow> bool" where
  \<comment> \<open>\<^verbatim>\<open>all(d.values())\<close>\<close>
  "all_values d = list_all (\<lambda>v. v) (map snd d)"

subsection \<open>The prompt template\<close>

datatype segment = Text string | Slot string

fun format :: "segment list \<Rightarrow> (string \<times> string) list \<Rightarrow> error + string" where
  \<comment> \<open>\<^verbatim>\<open>template.format(**kwargs)\<close> on the parsed template: a slot without a keyword
      argument raises \<^verbatim>\<open>KeyError\<close>, an argument without a slot is ignored.\<close>
  "format [] kwargs = Inr []"
| "format (Text t # rest) kwargs =
     (case format rest kwargs of Inl e \<Rightarrow> Inl e | Inr r \<Rightarrow> Inr (t @ r))"
| "format (Slot n # rest) kwargs =
     (case map_of kwargs n of
        None \<Rightarrow> Inl (KeyError n)
      | Some v \<Rightarrow> (case format rest kwargs of Inl e \<Rightarrow> Inl e | Inr r \<Rightarrow> Inr (v @ r)))"

definition constraint_prompt :: "segment list" where
  "constraint_prompt =
     [Text ''Write a '', Slot ''style'', Text '' description of '', Slot ''topic'',
      Text ''.\<newline>    Constraints:\<newline>    1. Do not use any of these words: '',
      Slot ''excluded_words'',
      Text ''\<newline>    2. Keep the description under 100 words\<newline>    3. Do not use analogies or metaphors\<newline>    4. Focus only on factual information'']"

definition base_parameters :: "(string \<times> string) list" where
  \<comment> \<open>The keyword arguments of the first \<^verbatim>\<open>constraint_prompt.format\<close>.\<close>
  "base_parameters =
     [(''topic'', ''artificial intelligence''),
      (''style'', ''technical''),
      (''excluded_words'', ''robot, human-like, science fiction'')]"

definition refined_parameters :: "(string \<times> string) list" where
  \<comment> \<open>The keyword arguments of the \<^verbatim>\<open>constraint_prompt.format\<close> inside the \<^verbatim>\<open>if\<close>.\<close>
  "refined_parameters =
     [(''topic'', ''artificial intelligence''),
      (''style'', ''technical and concise''),
      (''excluded_words'', ''robot, human-like, science fiction, like, as'')]"

subsection \<open>The generation client and the two cells\<close>

text \<open>
  The language model is outside the program: \<open>llm n prompt\<close> is the text it returns to
  its \<open>n\<close>-th invocation; the cells are given for the runs in which the model answers.
  The world records what the cells do to the outside: the prompts sent, in order, and
  the arguments of every \<^verbatim>\<open>print\<close>.
\<close>

type_synonym llm = "nat \<Rightarrow> string \<Rightarrow> string"

datatype printed = PStr string | PDict "(string \<times> bool) list"

record world =
  invocations :: "string list"
  stdout :: "printed list list"

definition get_response :: "llm \<Rightarrow> string \<Rightarrow> world \<Rightarrow> string \<times> world" where
  \<comment> \<open>\<^verbatim>\<open>llm.invoke(prompt).content\<close>\<close>
  "get_response m prompt w =
     (m (length (invocations w)) prompt, w\<lparr>invocations := invocations w @ [prompt]\<rparr>)"

definition print :: "printed list \<Rightarrow> world \<Rightarrow> world" where
  "print args w = w\<lparr>stdout := stdout w @ [args]\<rparr>"

definition constraint_cell :: "llm \<Rightarrow> world \<Rightarrow> error + (string \<times> world)" where
  \<comment> \<open>Section 3 of the notebook: \<^verbatim>\<open>response = get_response(constraint_prompt.format(...))\<close>,
      \<^verbatim>\<open>print(response)\<close>. The result is the variable \<^verbatim>\<open>response\<close>.\<close>
  "constraint_cell m w =
     (case format constraint_prompt base_parameters of
        Inl e \<Rightarrow> Inl e
      | Inr prompt \<Rightarrow>
          (case get_response m prompt w of
             (response, w1) \<Rightarrow> Inr (response, print [PStr response] w1)))"

record variables =
  evaluation_results :: "(string \<times> bool) list"
  refined_prompt :: "string option"
  refined_response :: "string option"
  refined_evaluation :: "(string \<times> bool) list option"

definition evaluation_cell :: "llm \<Rightarrow> string \<Rightarrow> world \<Rightarrow> error + (variables \<times> world)" where
  \<comment> \<open>Section 4 of the notebook, from \<^verbatim>\<open>evaluation_results = ...\<close> on; \<open>response\<close> is
      the variable the cell reads. The result holds the variables the cell binds
      (\<^verbatim>\<open>None\<close>: not bound).\<close>
  "evaluation_cell m response w =
     (case evaluate_output response constraints of
        Inl e \<Rightarrow> Inl e
      | Inr results \<Rightarrow>
          (let w1 = print [PStr ''Evaluation results:'', PDict results] w
           in if \<not> all_values results
              then (case format constraint_prompt refined_parameters of
                      Inl e \<Rightarrow> Inl e
                    | Inr prompt \<Rightarrow>
                        (case get_response m prompt w1 of
                           (reply, w2) \<Rightarrow>
                             (let w3 = print [PStr ''\<newline>Refined response:\<newline>'', PStr reply] w2
                              in case evaluate_output reply constraints of
                                   Inl e \<Rightarrow> Inl e
                                 | Inr refined \<Rightarrow>
                                     Inr (\<lparr>evaluation_results = results,
                                            refined_prompt = Some prompt,
                                            refined_response = Some reply,
                                            refined_evaluation = Some refined\<rparr>,
                                          print [PStr ''\<newline>Refined evaluation results:'',
                                                 PDict refined] w3))))
              else Inr (\<lparr>evaluation_results = results,
                          refined_prompt = None,
                          refined_response = None,
                          refined_evaluation = None\<rparr>, w1)))"

definition negative_prompt_cycle :: "llm \<Rightarrow> world \<Rightarrow> error + (variables \<times> world)" where
  \<comment> \<open>The two cells in the notebook's order.\<close>
  "negative_prompt_cycle m w =
     (case constraint_cell m w of
        Inl e \<Rightarrow> Inl e
      | Inr (response, w1) \<Rightarrow> evaluation_cell m response w1)"

subsection \<open>Words between whitespace\<close>

text \<open>
  What a whitespace-delimited word is, said without the scan: a text is laid out as
  words, each after its separator, and a tail; the separators and the tail are
  whitespace, only the first separator may be empty, and a word is a non-empty run
  without whitespace.
\<close>

definition layout :: "(string \<times> string) list \<Rightarrow> string \<Rightarrow> string" where
  "layout ps tail = concat (map (\<lambda>(sep, w). sep @ w) ps) @ tail"

definition is_blank :: "string \<Rightarrow> bool" where
  "is_blank s = list_all isspace s"

definition is_token :: "string \<Rightarrow> bool" where
  "is_token w = (w \<noteq> [] \<and> list_all (\<lambda>c. \<not> isspace c) w)"

definition well_spaced :: "(string \<times> string) list \<Rightarrow> string \<Rightarrow> bool" where
  "well_spaced ps tail =
     (list_all (\<lambda>(sep, w). is_blank sep \<and> is_token w) ps
      \<and> list_all (\<lambda>(sep, w). sep \<noteq> []) (tl ps)
      \<and> is_blank tail)"

subsection \<open>Occurrences up to case\<close>

definition occurs_at :: "string \<Rightarrow> string \<Rightarrow> nat \<Rightarrow> bool" where
  \<comment> \<open>\<open>w\<close> stands in \<open>s\<close> at position \<open>i\<close>, letter case apart.\<close>
  "occurs_at w s i =
     (i + length w \<le> length s \<and> str_lower (take (length w) (drop i s)) = str_lower w)"

section \<open>Properties\<close>

subsection \<open>Characters and substrings\<close>

lemma of_char_lower_char:
  "(of_char (lower_char c) :: nat) =
     (if (65 \<le> (of_char c :: nat) \<and> (of_char c :: nat) \<le> 90)
          \<or> (192 \<le> (of_char c :: nat) \<and> (of_char c :: nat) \<le> 222 \<and> (of_char c :: nat) \<noteq> 215)
      then of_char c + 32 else of_char c)"
  by (simp add: lower_char_def Let_def)

lemma is_word_lower_char: "is_word (lower_char c) = is_word c"
  unfolding is_word_def Let_def of_char_lower_char by (simp split: if_splits)

lemma isspace_lower_char: "isspace (lower_char c) = isspace c"
  unfolding isspace_def Let_def of_char_lower_char by (simp split: if_splits)

lemma space_not_word: "isspace c \<Longrightarrow> \<not> is_word c"
  unfolding isspace_def is_word_def Let_def by arith

lemma str_contains_iff: "str_contains w s \<longleftrightarrow> (\<exists>p q. s = p @ w @ q)"
proof (induction s)
  case Nil
  then show ?case by auto
next
  case (Cons c cs)
  show ?case
  proof
    assume "str_contains w (c # cs)"
    then consider "prefix w (c # cs)" | "str_contains w cs" by auto
    then show "\<exists>p q. c # cs = p @ w @ q"
    proof cases
      case 1
      then obtain q where "c # cs = w @ q" by (auto simp: prefix_def)
      then have "c # cs = [] @ w @ q" by simp
      then show ?thesis by blast
    next
      case 2
      with Cons.IH obtain p q where "cs = p @ w @ q" by blast
      then have "c # cs = (c # p) @ w @ q" by simp
      then show ?thesis by blast
    qed
  next
    assume "\<exists>p q. c # cs = p @ w @ q"
    then obtain p q where pq: "c # cs = p @ w @ q" by blast
    show "str_contains w (c # cs)"
    proof (cases p)
      case Nil
      with pq have "prefix w (c # cs)" by (simp add: prefix_def)
      then show ?thesis by simp
    next
      case (Cons a p')
      with pq have "cs = p' @ w @ q" by simp
      with Cons.IH have "str_contains w cs" by blast
      then show ?thesis by simp
    qed
  qed
qed

lemma contains_lower_iff:
  "str_contains w (str_lower x) \<longleftrightarrow> (\<exists>p u q. x = p @ u @ q \<and> str_lower u = w)"
proof
  assume "str_contains w (str_lower x)"
  then obtain p' q' where "map lower_char x = p' @ w @ q'"
    unfolding str_contains_iff str_lower_def by blast
  then obtain p r where x1: "x = p @ r" and r: "w @ q' = map lower_char r"
    unfolding map_eq_append_conv by blast
  from r obtain u q where "r = u @ q" and "map lower_char u = w"
    unfolding append_eq_map_conv by blast
  with x1 have "x = p @ u @ q \<and> str_lower u = w" by (simp add: str_lower_def)
  then show "\<exists>p u q. x = p @ u @ q \<and> str_lower u = w" by blast
next
  assume "\<exists>p u q. x = p @ u @ q \<and> str_lower u = w"
  then obtain p u q where "x = p @ u @ q" and "str_lower u = w" by blast
  then have "str_lower x = str_lower p @ w @ str_lower q" by (simp add: str_lower_def)
  then show "str_contains w (str_lower x)" unfolding str_contains_iff by blast
qed

subsection \<open>Splitting at whitespace\<close>

lemma split_from_blank: "is_blank sp \<Longrightarrow> split_from [] (sp @ x) = split_from [] x"
  by (induction sp) (simp_all add: is_blank_def)

lemma split_from_token:
  "list_all (\<lambda>c. \<not> isspace c) w \<Longrightarrow> split_from cur (w @ x) = split_from (cur @ w) x"
  by (induction w arbitrary: cur) simp_all

lemma split_from_separator:
  "is_blank sp \<Longrightarrow> sp \<noteq> [] \<Longrightarrow> cur \<noteq> [] \<Longrightarrow> split_from cur (sp @ x) = cur # split_from [] x"
proof (cases sp)
  case Nil
  assume "sp \<noteq> []" with Nil show ?thesis by simp
next
  case (Cons c sp')
  assume b: "is_blank sp" and c: "cur \<noteq> []"
  from b Cons have "isspace c" and "is_blank sp'" by (simp_all add: is_blank_def)
  with c Cons show ?thesis by (simp add: split_from_blank)
qed

lemma split_from_tail: "is_blank t \<Longrightarrow> split_from cur t = (if cur = [] then [] else [cur])"
proof (cases t)
  case Nil
  then show ?thesis by simp
next
  case (Cons c t')
  assume "is_blank t"
  with Cons have c: "isspace c" and "is_blank t'" by (simp_all add: is_blank_def)
  then have "split_from [] (t' @ []) = split_from [] []" by (rule_tac split_from_blank)
  with c Cons show ?thesis by simp
qed

lemma split_from_layout:
  "list_all (\<lambda>(sep, w). is_blank sep \<and> sep \<noteq> [] \<and> is_token w) ps \<Longrightarrow> is_blank t \<Longrightarrow> cur \<noteq> []
   \<Longrightarrow> split_from cur (layout ps t) = cur # map snd ps"
proof (induction ps arbitrary: cur)
  case Nil
  then show ?case by (simp add: layout_def split_from_tail)
next
  case (Cons p ps)
  obtain sep w where p: "p = (sep, w)" by (cases p)
  from Cons.prems p have sep: "is_blank sep" "sep \<noteq> []" and w: "is_token w"
    and rest: "list_all (\<lambda>(sep, w). is_blank sep \<and> sep \<noteq> [] \<and> is_token w) ps"
    by simp_all
  from w have w1: "w \<noteq> []" and w2: "list_all (\<lambda>c. \<not> isspace c) w" by (simp_all add: is_token_def)
  have "layout (p # ps) t = sep @ (w @ layout ps t)" by (simp add: layout_def p)
  then have "split_from cur (layout (p # ps) t) = cur # split_from [] (w @ layout ps t)"
    using sep Cons.prems(3) by (simp add: split_from_separator)
  also have "split_from [] (w @ layout ps t) = split_from w (layout ps t)"
    using w2 by (simp add: split_from_token)
  also have "\<dots> = w # map snd ps" using rest Cons.prems(2) w1 by (rule Cons.IH)
  finally show ?case by (simp add: p)
qed

lemma tl_seps: 
  "list_all (\<lambda>(sep, w). is_blank sep \<and> is_token w) ps \<Longrightarrow> list_all (\<lambda>(sep, w). sep \<noteq> []) ps
   \<Longrightarrow> list_all (\<lambda>(sep, w). is_blank sep \<and> sep \<noteq> [] \<and> is_token w) ps"
  by (induction ps) auto

lemma str_split_layout: "well_spaced ps t \<Longrightarrow> str_split (layout ps t) = map snd ps"
proof (cases ps)
  case Nil
  assume "well_spaced ps t"
  with Nil show ?thesis by (simp add: well_spaced_def layout_def str_split_def split_from_tail)
next
  case (Cons p ps')
  assume ws: "well_spaced ps t"
  obtain sep w where p: "p = (sep, w)" by (cases p)
  from ws Cons p have sep: "is_blank sep" and w: "is_token w" and t: "is_blank t"
    and r1: "list_all (\<lambda>(sep, w). is_blank sep \<and> is_token w) ps'"
    and r2: "list_all (\<lambda>(sep, w). sep \<noteq> []) ps'"
    by (simp_all add: well_spaced_def)
  from w have w1: "w \<noteq> []" and w2: "list_all (\<lambda>c. \<not> isspace c) w" by (simp_all add: is_token_def)
  have "layout ps t = sep @ (w @ layout ps' t)" by (simp add: layout_def p Cons)
  then have "str_split (layout ps t) = split_from [] (w @ layout ps' t)"
    using sep by (simp add: str_split_def split_from_blank)
  also have "\<dots> = split_from w (layout ps' t)" using w2 by (simp add: split_from_token)
  also have "\<dots> = w # map snd ps'" using tl_seps [OF r1 r2] t w1 by (rule split_from_layout)
  finally show ?thesis by (simp add: p Cons)
qed

lemma layout_exists: "\<exists>ps t. well_spaced ps t \<and> x = layout ps t"
proof (induction x)
  case Nil
  have "well_spaced [] [] \<and> [] = layout [] []" by (simp add: well_spaced_def layout_def is_blank_def)
  then show ?case by blast
next
  case (Cons c x)
  then obtain ps t where ws: "well_spaced ps t" and x: "x = layout ps t" by blast
  show ?case
  proof (cases ps)
    case Nil
    show ?thesis
    proof (cases "isspace c")
      case True
      with ws x Nil have "well_spaced [] (c # t) \<and> c # x = layout [] (c # t)"
        by (simp add: well_spaced_def layout_def is_blank_def)
      then show ?thesis by blast
    next
      case False
      with ws x Nil have "well_spaced [([], [c])] t \<and> c # x = layout [([], [c])] t"
        by (simp add: well_spaced_def layout_def is_blank_def is_token_def)
      then show ?thesis by blast
    qed
  next
    case (Cons p ps')
    obtain sep w where p: "p = (sep, w)" by (cases p)
    show ?thesis
    proof (cases "isspace c")
      case True
      with ws x Cons p have "well_spaced ((c # sep, w) # ps') t \<and> c # x = layout ((c # sep, w) # ps') t"
        by (simp add: well_spaced_def layout_def is_blank_def)
      then show ?thesis by blast
    next
      case False
      show ?thesis
      proof (cases "sep = []")
        case True
        with False ws x Cons p have "well_spaced (([], c # w) # ps') t \<and> c # x = layout (([], c # w) # ps') t"
          by (simp add: well_spaced_def layout_def is_blank_def is_token_def)
        then show ?thesis by blast
      next
        case nonempty: False
        with False ws x Cons p have "well_spaced (([], [c]) # (sep, w) # ps') t \<and> c # x = layout (([], [c]) # (sep, w) # ps') t"
          by (simp add: well_spaced_def layout_def is_blank_def is_token_def)
        then show ?thesis by blast
      qed
    qed
  qed
qed

text \<open>
  C5. Every response is laid out in exactly the words that \<^verbatim>\<open>split\<close> finds, and
  \<^verbatim>\<open>word_count\<close> holds if and only if there are at most 100 of them: true at 100 words,
  false at 101.
\<close>

theorem word_count_limit:
  "(\<exists>ps t. well_spaced ps t \<and> x = layout ps t)
   \<and> (\<forall>ps t. well_spaced ps t \<and> x = layout ps t \<longrightarrow>
          str_split x = map snd ps \<and> word_count x = (length ps \<le> 100))"
  using layout_exists [of x] by (simp add: word_count_def str_split_layout)

theorem word_count_limit_witness:
  "word_count (layout (replicate 100 ('' '', ''w'')) []) = True
   \<and> word_count (layout (replicate 101 ('' '', ''w'')) []) = False"
proof -
  have sp: "isspace CHR '' ''" and w: "\<not> isspace CHR ''w''" by (simp_all add: isspace_def)
  have ws: "well_spaced (replicate n ('' '', ''w'')) []" for n
    by (cases n) (simp_all add: well_spaced_def is_blank_def is_token_def list_all_iff sp w)
  have a: "word_count (layout (replicate 100 ('' '', ''w'')) [])
             = (length (replicate 100 ('' '', ''w'')) \<le> 100)"
    using word_count_limit [of "layout (replicate 100 ('' '', ''w'')) []"] ws [of 100] by blast
  have b: "word_count (layout (replicate 101 ('' '', ''w'')) [])
             = (length (replicate 101 ('' '', ''w'')) \<le> 100)"
    using word_count_limit [of "layout (replicate 101 ('' '', ''w'')) []"] ws [of 101] by blast
  from a b show ?thesis by simp
qed

subsection \<open>Excluded words\<close>

lemma forbidden_words_lower: "\<forall>w\<in>set forbidden_words. str_lower w = w"
  by code_simp

lemma no_excluded_words_iff:
  "no_excluded_words x =
     (\<not> (\<exists>w\<in>set forbidden_words. \<exists>p u q. x = p @ u @ q \<and> str_lower u = str_lower w))"
  using forbidden_words_lower
  by (simp add: no_excluded_words_def list_all_iff contains_lower_iff)

text \<open>
  C3. \<^verbatim>\<open>no_excluded_words\<close> is true if and only if none of the three configured words
  occurs in the response up to case. Any text that equals a configured word up to case
  makes it false wherever it stands in the response, two responses that differ in case
  only get the same result, and \<^verbatim>\<open>This uses a Robot.\<close> is rejected.
\<close>

theorem no_excluded_words_case_insensitive:
  "no_excluded_words x =
     (\<not> (\<exists>w\<in>set forbidden_words. \<exists>p u q. x = p @ u @ q \<and> str_lower u = str_lower w))
   \<and> (\<forall>w\<in>set forbidden_words. \<forall>p u q.
         str_lower u = str_lower w \<longrightarrow> no_excluded_words (p @ u @ q) = False)
   \<and> (\<forall>y. str_lower y = str_lower x \<longrightarrow> no_excluded_words y = no_excluded_words x)
   \<and> forbidden_words = [''robot'', ''human-like'', ''science fiction'']
   \<and> no_excluded_words ''This uses a Robot.'' = False"
proof (intro conjI)
  show "no_excluded_words x =
     (\<not> (\<exists>w\<in>set forbidden_words. \<exists>p u q. x = p @ u @ q \<and> str_lower u = str_lower w))"
    by (rule no_excluded_words_iff)
  show "\<forall>w\<in>set forbidden_words. \<forall>p u q.
         str_lower u = str_lower w \<longrightarrow> no_excluded_words (p @ u @ q) = False"
    unfolding no_excluded_words_iff by blast
  show "\<forall>y. str_lower y = str_lower x \<longrightarrow> no_excluded_words y = no_excluded_words x"
    by (simp add: no_excluded_words_def)
  show "forbidden_words = [''robot'', ''human-like'', ''science fiction'']"
    by (rule forbidden_words_def)
  show "no_excluded_words ''This uses a Robot.'' = False"
    by code_simp
qed

theorem no_excluded_words_case_insensitive_witness:
  "''robot'' \<in> set forbidden_words
   \<and> str_lower ''RoBoT'' = str_lower ''robot''
   \<and> no_excluded_words (''A '' @ ''RoBoT'' @ ''.'') = False
   \<and> no_excluded_words ''A machine.'' = True"
proof -
  have m: "''robot'' \<in> set forbidden_words" by (simp add: forbidden_words_def)
  have l: "str_lower ''RoBoT'' = str_lower ''robot''" by code_simp
  from no_excluded_words_case_insensitive [of "[]"]
  have "\<forall>w\<in>set forbidden_words. \<forall>p u q.
         str_lower u = str_lower w \<longrightarrow> no_excluded_words (p @ u @ q) = False" by blast
  with m l have f: "no_excluded_words (''A '' @ ''RoBoT'' @ ''.'') = False" by blast
  have t: "no_excluded_words ''A machine.'' = True" by code_simp
  from m l f t show ?thesis by blast
qed

subsection \<open>The word-boundary pattern\<close>

lemma concat_map_if: "concat (map f (if P then [j] else [])) = (if P then f j else [])"
  by simp

lemma ends_literal:
  "i \<le> length s \<Longrightarrow> ends True (literal w) s i = (if occurs_at w s i then [i + length w] else [])"
proof (induction w arbitrary: i)
  case Nil
  then show ?case by (simp add: occurs_at_def str_lower_def)
next
  case (Cons c cs)
  show ?case
  proof (cases "i < length s \<and> lower_char (s ! i) = lower_char c")
    case False
    then have "\<not> occurs_at (c # cs) s i"
      by (auto simp: occurs_at_def str_lower_def Cons_nth_drop_Suc [symmetric])
    with False show ?thesis by auto
  next
    case True
    then have d: "drop i s = s ! i # drop (Suc i) s" by (simp add: Cons_nth_drop_Suc)
    from True have "Suc i \<le> length s" by simp
    then have ih: "ends True (literal cs) s (Suc i) =
        (if occurs_at cs s (Suc i) then [Suc i + length cs] else [])" by (rule Cons.IH)
    have o: "occurs_at (c # cs) s i = occurs_at cs s (Suc i)"
      using True by (simp add: occurs_at_def str_lower_def d)
    have "ends True (literal (c # cs)) s i = ends True (literal cs) s (Suc i)"
      using True by simp
    with ih o show ?thesis by simp
  qed
qed

lemma search_at_None: "search_at ic r s js = None \<longleftrightarrow> (\<forall>i\<in>set js. ends ic r s i = [])"
  by (induction js) (auto split: list.splits)


lemma ends_boundary_after:
  assumes "i \<le> length s"
  shows "ends True (Seq (literal u) WordBoundary) s i \<noteq> [] \<longleftrightarrow>
           occurs_at u s i \<and> at_boundary s (i + length u)"
proof -
  have "ends True (Seq (literal u) WordBoundary) s i =
      concat (map (ends True WordBoundary s) (if occurs_at u s i then [i + length u] else []))"
    using assms by (simp only: ends.simps ends_literal)
  also have "\<dots> = (if occurs_at u s i then ends True WordBoundary s (i + length u) else [])"
    by (rule concat_map_if)
  finally show ?thesis by simp
qed

lemma ends_Alt_Seq:
  "ends ic (Seq (Alt a b) c) s i = ends ic (Seq a c) s i @ ends ic (Seq b c) s i"
  by simp

lemma ends_analogy_pattern:
  assumes "i \<le> length s"
  shows "ends True analogy_pattern s i \<noteq> [] \<longleftrightarrow>
     at_boundary s i \<and>
     ((occurs_at ''as'' s i \<and> at_boundary s (i + length ''as''))
      \<or> (occurs_at ''like'' s i \<and> at_boundary s (i + length ''like'')))"
proof -
  let ?g = "Seq (Alt (literal ''as'') (literal ''like'')) WordBoundary"
  have "ends True analogy_pattern s i = concat (map (ends True ?g s) (if at_boundary s i then [i] else []))"
    unfolding analogy_pattern_def by (simp only: ends.simps)
  also have "\<dots> = (if at_boundary s i then ends True ?g s i else [])"
    by (rule concat_map_if)
  finally have "ends True analogy_pattern s i \<noteq> [] \<longleftrightarrow>
      at_boundary s i \<and> ends True ?g s i \<noteq> []" by simp
  also have "ends True ?g s i \<noteq> [] \<longleftrightarrow>
      ends True (Seq (literal ''as'') WordBoundary) s i \<noteq> []
      \<or> ends True (Seq (literal ''like'') WordBoundary) s i \<noteq> []"
    by (simp only: ends_Alt_Seq append_is_Nil_conv de_Morgan_conj)
  finally show ?thesis by (simp only: ends_boundary_after [OF assms])
qed

lemma occurs_at_nth:
  assumes "occurs_at w s i" and "k < length w"
  shows "lower_char (s ! (i + k)) = lower_char (w ! k)"
proof -
  from assms have len: "i + length w \<le> length s"
    and eq: "map lower_char (take (length w) (drop i s)) = map lower_char w"
    by (simp_all add: occurs_at_def str_lower_def)
  from len assms(2) have "map lower_char (take (length w) (drop i s)) ! k = lower_char (s ! (i + k))"
    by simp
  moreover from assms(2) have "map lower_char w ! k = lower_char (w ! k)" by simp
  ultimately show ?thesis using eq by simp
qed

lemma occurs_at_word:
  assumes "occurs_at w s i" and "k < length w" and "is_word (w ! k)"
  shows "is_word (s ! (i + k))"
proof -
  have "is_word (s ! (i + k)) = is_word (lower_char (s ! (i + k)))" by (simp add: is_word_lower_char)
  also have "\<dots> = is_word (lower_char (w ! k))" using occurs_at_nth [OF assms(1,2)] by simp
  also have "\<dots> = is_word (w ! k)" by (simp add: is_word_lower_char)
  finally show ?thesis using assms(3) by simp
qed

lemma whole_word_boundaries:
  assumes occ: "occurs_at w s i" and ne: "w \<noteq> []"
    and first: "is_word (w ! 0)" and final: "is_word (w ! (length w - 1))"
  shows "at_boundary s i \<longleftrightarrow> (i = 0 \<or> \<not> is_word (s ! (i - 1)))"
    and "at_boundary s (i + length w) \<longleftrightarrow>
           (i + length w = length s \<or> \<not> is_word (s ! (i + length w)))"
proof -
  from occ have len: "i + length w \<le> length s" by (simp add: occurs_at_def)
  from ne have pos: "0 < length w" by simp
  from occurs_at_word [OF occ pos first] have a: "is_word (s ! i)" by simp
  from pos have "length w - 1 < length w" by simp
  from occurs_at_word [OF occ this final] pos have b: "is_word (s ! (i + length w - 1))" by simp
  from len pos have "i < length s" by linarith
  with a show "at_boundary s i \<longleftrightarrow> (i = 0 \<or> \<not> is_word (s ! (i - 1)))"
    by (auto simp: at_boundary_def Let_def)
  from len pos b show "at_boundary s (i + length w) \<longleftrightarrow>
           (i + length w = length s \<or> \<not> is_word (s ! (i + length w)))"
    by (auto simp: at_boundary_def Let_def)
qed


lemma whole_word_iff:
  assumes "w \<noteq> []" and "is_word (w ! 0)" and "is_word (w ! (length w - 1))"
  shows "(occurs_at w s i \<and> at_boundary s i \<and> at_boundary s (i + length w)) \<longleftrightarrow>
         (occurs_at w s i \<and> (i = 0 \<or> \<not> is_word (s ! (i - 1)))
            \<and> (i + length w = length s \<or> \<not> is_word (s ! (i + length w))))"
  using whole_word_boundaries [OF _ assms, of s i] by blast

lemma no_analogies_iff:
  "no_analogies x \<longleftrightarrow>
     \<not> (\<exists>i. (occurs_at ''as'' x i \<and> at_boundary x i \<and> at_boundary x (i + length ''as''))
           \<or> (occurs_at ''like'' x i \<and> at_boundary x i \<and> at_boundary x (i + length ''like'')))"
proof -
  have "no_analogies x \<longleftrightarrow> (\<forall>i\<le>length x. ends True analogy_pattern x i = [])"
    by (auto simp: no_analogies_def re_search_def search_at_None less_Suc_eq_le)
  also have "\<dots> \<longleftrightarrow> (\<forall>i\<le>length x. \<not> (at_boundary x i \<and>
     ((occurs_at ''as'' x i \<and> at_boundary x (i + length ''as''))
      \<or> (occurs_at ''like'' x i \<and> at_boundary x (i + length ''like'')))))"
    using ends_analogy_pattern [of _ x] by blast
  also have "\<dots> \<longleftrightarrow> \<not> (\<exists>i. (occurs_at ''as'' x i \<and> at_boundary x i \<and> at_boundary x (i + length ''as''))
           \<or> (occurs_at ''like'' x i \<and> at_boundary x i \<and> at_boundary x (i + length ''like'')))"
  proof -
    have "i \<le> length x" if "occurs_at w x i" for w i
      using that by (simp add: occurs_at_def)
    then show ?thesis by blast
  qed
  finally show ?thesis .
qed

text \<open>
  C4. \<^verbatim>\<open>no_analogies\<close> is true if and only if neither \<^verbatim>\<open>as\<close> nor \<^verbatim>\<open>like\<close> occurs, up to
  case, with no word character right before it and none right after it. So
  \<^verbatim>\<open>It behaves like water\<close> is rejected and \<^verbatim>\<open>Likewise, it performs well\<close> passes.
\<close>

theorem no_analogies_whole_word:
  "no_analogies x =
     (\<not> (\<exists>w\<in>{''as'', ''like''}. \<exists>i. occurs_at w x i
            \<and> (i = 0 \<or> \<not> is_word (x ! (i - 1)))
            \<and> (i + length w = length x \<or> \<not> is_word (x ! (i + length w)))))
   \<and> no_analogies ''It behaves like water'' = False
   \<and> no_analogies ''Likewise, it performs well'' = True"
proof (intro conjI)
  have a: "''as'' \<noteq> [] \<and> is_word (''as'' ! 0) \<and> is_word (''as'' ! (length ''as'' - 1))"
    by (simp add: is_word_def)
  have l: "''like'' \<noteq> [] \<and> is_word (''like'' ! 0) \<and> is_word (''like'' ! (length ''like'' - 1))"
    by (simp add: is_word_def)
  have wa: "(occurs_at ''as'' x i \<and> at_boundary x i \<and> at_boundary x (i + length ''as'')) \<longleftrightarrow>
         (occurs_at ''as'' x i \<and> (i = 0 \<or> \<not> is_word (x ! (i - 1)))
            \<and> (i + length ''as'' = length x \<or> \<not> is_word (x ! (i + length ''as''))))" for i
    using a by (intro whole_word_iff) simp_all
  have wl: "(occurs_at ''like'' x i \<and> at_boundary x i \<and> at_boundary x (i + length ''like'')) \<longleftrightarrow>
         (occurs_at ''like'' x i \<and> (i = 0 \<or> \<not> is_word (x ! (i - 1)))
            \<and> (i + length ''like'' = length x \<or> \<not> is_word (x ! (i + length ''like''))))" for i
    using l by (intro whole_word_iff) simp_all
  show "no_analogies x =
     (\<not> (\<exists>w\<in>{''as'', ''like''}. \<exists>i. occurs_at w x i
            \<and> (i = 0 \<or> \<not> is_word (x ! (i - 1)))
            \<and> (i + length w = length x \<or> \<not> is_word (x ! (i + length w)))))"
    unfolding no_analogies_iff wa wl by blast
  show "no_analogies ''It behaves like water'' = False" by code_simp
  show "no_analogies ''Likewise, it performs well'' = True" by code_simp
qed

theorem no_analogies_whole_word_witness:
  "no_analogies ''Fast as light'' = False
   \<and> occurs_at ''as'' ''Fast as light'' 5
   \<and> no_analogies ''Fast, alike, basic'' = True"
proof -
  have "occurs_at ''as'' ''Fast as light'' 5
      \<and> \<not> is_word (''Fast as light'' ! (5 - 1)) \<and> \<not> is_word (''Fast as light'' ! (5 + length ''as''))"
    by code_simp
  then have "\<exists>w\<in>{''as'', ''like''}. \<exists>i. occurs_at w ''Fast as light'' i
            \<and> (i = 0 \<or> \<not> is_word (''Fast as light'' ! (i - 1)))
            \<and> (i + length w = length ''Fast as light'' \<or> \<not> is_word (''Fast as light'' ! (i + length w)))"
    by blast
  with no_analogies_whole_word [of "''Fast as light''"]
  have f: "no_analogies ''Fast as light'' = False" by simp
  have o: "occurs_at ''as'' ''Fast as light'' 5" by code_simp
  have t: "no_analogies ''Fast, alike, basic'' = True" by code_simp
  from f o t show ?thesis by simp
qed

subsection \<open>The evaluator\<close>

lemma update_fresh: "k \<notin> fst ` set d \<Longrightarrow> AList.update k v d = d @ [(k, v)]"
  by (induction d) auto

lemma evaluate_loop_values:
  "map (\<lambda>p. snd p r) C = map Inr bs \<Longrightarrow> distinct (map fst C) \<Longrightarrow> fst ` set C \<inter> fst ` set acc = {}
   \<Longrightarrow> evaluate_loop r C acc = Inr (acc @ zip (map fst C) bs)"
proof (induction C arbitrary: acc bs)
  case Nil
  then show ?case by simp
next
  case (Cons p C)
  obtain n f where p: "p = (n, f)" by (cases p)
  from Cons.prems(1) p obtain b bs' where bs: "bs = b # bs'" and f: "f r = Inr b"
    and rest: "map (\<lambda>p. snd p r) C = map Inr bs'"
    by (cases bs) auto
  from Cons.prems(3) p have fresh: "n \<notin> fst ` set acc" by auto
  from Cons.prems(2,3) p have d: "distinct (map fst C)"
    and disj: "fst ` set C \<inter> fst ` set (acc @ [(n, b)]) = {}" by auto
  have "evaluate_loop r (p # C) acc = evaluate_loop r C (acc @ [(n, b)])"
    using p f fresh by (simp add: update_fresh)
  also have "\<dots> = Inr ((acc @ [(n, b)]) @ zip (map fst C) bs')"
    using rest d disj by (rule Cons.IH)
  finally show ?case by (simp add: p bs)
qed

lemma returned_values:
  "\<forall>p\<in>set C. \<exists>b. f p = Inr b \<Longrightarrow> \<exists>bs. map f C = map Inr bs"
proof (induction C)
  case Nil
  then show ?case by simp
next
  case (Cons p C)
  then obtain b bs where "f p = Inr b" and "map f C = map Inr bs" by auto
  then have "map f (p # C) = map Inr (b # bs)" by simp
  then show ?case by blast
qed

lemma evaluate_output_constraints:
  "evaluate_output r constraints =
     Inr [(''word_count'', word_count r),
          (''no_excluded_words'', no_excluded_words r),
          (''no_analogies'', no_analogies r)]"
  by (simp add: evaluate_output_def constraints_def)

text \<open>
  C6. For a dictionary of constraints (distinct names) whose checks return on the
  response, \<^verbatim>\<open>evaluate_output\<close> returns, and the result has the names of the
  constraints, in their order, each with the value of its check: no entry is missing
  and none is added. The three constraints of the notebook return on every response,
  the empty one too, so with them the call never raises.
\<close>

theorem evaluate_output_keys:
  "(distinct (map fst C) \<and> (\<forall>p\<in>set C. \<exists>b. snd p r = Inr b) \<longrightarrow>
      (\<exists>res. evaluate_output r C = Inr res \<and> map fst res = map fst C
          \<and> (\<forall>i<length C. snd (C ! i) r = Inr (snd (res ! i)))))
   \<and> (\<exists>res. evaluate_output r constraints = Inr res \<and> map fst res = map fst constraints
          \<and> length res = 3)"
proof (intro conjI impI)
  assume a: "distinct (map fst C) \<and> (\<forall>p\<in>set C. \<exists>b. snd p r = Inr b)"
  then obtain bs where bs: "map (\<lambda>p. snd p r) C = map Inr bs"
    using returned_values [of C "\<lambda>p. snd p r"] by blast
  then have len: "length bs = length C" by (metis length_map)
  from a bs have e: "evaluate_output r C = Inr (zip (map fst C) bs)"
    unfolding evaluate_output_def using evaluate_loop_values [of r C bs "[]"] by simp
  have k: "map fst (zip (map fst C) bs) = map fst C" using len by simp
  have v: "snd (C ! i) r = Inr (snd (zip (map fst C) bs ! i))" if "i < length C" for i
  proof -
    from that have "snd (C ! i) r = map (\<lambda>p. snd p r) C ! i" by simp
    also have "\<dots> = map Inr bs ! i" by (simp only: bs)
    also from that len have "\<dots> = Inr (bs ! i)" by simp
    also from that len have "bs ! i = snd (zip (map fst C) bs ! i)" by simp
    finally show ?thesis .
  qed
  from e k v show "\<exists>res. evaluate_output r C = Inr res \<and> map fst res = map fst C
          \<and> (\<forall>i<length C. snd (C ! i) r = Inr (snd (res ! i)))" by blast
next
  show "\<exists>res. evaluate_output r constraints = Inr res \<and> map fst res = map fst constraints
          \<and> length res = 3"
    by (simp add: evaluate_output_constraints) (simp add: constraints_def)
qed

theorem evaluate_output_keys_witness:
  "distinct (map fst constraints)
   \<and> evaluate_output [] constraints =
       Inr [(''word_count'', True), (''no_excluded_words'', True), (''no_analogies'', True)]
   \<and> (\<exists>res. evaluate_output [] constraints = Inr res
         \<and> map fst res = [''word_count'', ''no_excluded_words'', ''no_analogies''])"
proof -
  have d: "distinct (map fst constraints)" by (simp add: constraints_def)
  have t: "\<forall>p\<in>set constraints. \<exists>b. snd p [] = Inr b" by (simp add: constraints_def)
  have e: "evaluate_output [] constraints =
       Inr [(''word_count'', True), (''no_excluded_words'', True), (''no_analogies'', True)]"
    by code_simp
  from d t evaluate_output_keys [of constraints "[]"]
  have "\<exists>res. evaluate_output [] constraints = Inr res \<and> map fst res = map fst constraints"
    by blast
  then have "\<exists>res. evaluate_output [] constraints = Inr res
         \<and> map fst res = [''word_count'', ''no_excluded_words'', ''no_analogies'']"
    by (simp add: constraints_def)
  with d e show ?thesis by blast
qed

subsection \<open>Blank responses\<close>

lemma str_contains_subset: "str_contains w s \<Longrightarrow> set w \<subseteq> set s"
  by (auto simp: str_contains_iff)

lemma blank_lower: "is_blank x \<Longrightarrow> is_blank (str_lower x)"
  by (simp add: is_blank_def str_lower_def list_all_iff isspace_lower_char)

lemma blank_contains:
  assumes "is_blank x" and "c \<in> set w" and "\<not> isspace c"
  shows "\<not> str_contains w (str_lower x)"
proof
  assume "str_contains w (str_lower x)"
  then have "set w \<subseteq> set (str_lower x)" by (rule str_contains_subset)
  with assms(2) have "c \<in> set (str_lower x)" by blast
  moreover from assms(1) have "\<forall>c\<in>set (str_lower x). isspace c"
    using blank_lower [of x] by (simp add: is_blank_def list_all_iff)
  ultimately show False using assms(3) by blast
qed

lemma blank_no_excluded_words: "is_blank x \<Longrightarrow> no_excluded_words x"
proof -
  assume b: "is_blank x"
  have r: "\<not> isspace CHR ''r''" and h: "\<not> isspace CHR ''h''" and s: "\<not> isspace CHR ''s''"
    by (simp_all add: isspace_def)
  have "\<not> str_contains ''robot'' (str_lower x)"
    by (rule blank_contains [OF b _ r]) simp
  moreover have "\<not> str_contains ''human-like'' (str_lower x)"
    by (rule blank_contains [OF b _ h]) simp
  moreover have "\<not> str_contains ''science fiction'' (str_lower x)"
    by (rule blank_contains [OF b _ s]) simp
  ultimately show ?thesis
    by (simp add: no_excluded_words_def forbidden_words_def)
qed

lemma blank_occurs_at:
  assumes "is_blank x" and "w \<noteq> []" and "is_word (w ! 0)"
  shows "\<not> occurs_at w x i"
proof
  assume o: "occurs_at w x i"
  from assms(2) have pos: "0 < length w" by simp
  from occurs_at_word [OF o pos assms(3)] have "is_word (x ! i)" by simp
  moreover from o pos have "i < length x" unfolding occurs_at_def by linarith
  with assms(1) have "isspace (x ! i)" by (simp add: is_blank_def list_all_length)
  ultimately show False using space_not_word by blast
qed

lemma blank_no_analogies: "is_blank x \<Longrightarrow> no_analogies x"
proof -
  assume b: "is_blank x"
  have "\<not> occurs_at ''as'' x i" for i
    by (rule blank_occurs_at [OF b]) (simp_all add: is_word_def)
  moreover have "\<not> occurs_at ''like'' x i" for i
    by (rule blank_occurs_at [OF b]) (simp_all add: is_word_def)
  ultimately show ?thesis by (simp add: no_analogies_iff)
qed

lemma blank_word_count: "is_blank x \<Longrightarrow> str_split x = [] \<and> word_count x"
  by (simp add: word_count_def str_split_def split_from_tail)

text \<open>
  C9. A response of whitespace only, the empty one among them, has no word, holds no
  forbidden word and no whole word \<^verbatim>\<open>as\<close> or \<^verbatim>\<open>like\<close>: the evaluator marks all three
  constraints true.
\<close>

theorem blank_response_compliant:
  "is_blank x \<Longrightarrow>
     length (str_split x) = 0
     \<and> word_count x \<and> no_excluded_words x \<and> no_analogies x
     \<and> evaluate_output x constraints =
         Inr [(''word_count'', True), (''no_excluded_words'', True), (''no_analogies'', True)]
     \<and> (\<exists>res. evaluate_output x constraints = Inr res \<and> all_values res)"
  by (simp add: evaluate_output_constraints blank_word_count blank_no_excluded_words
      blank_no_analogies all_values_def)

theorem blank_response_compliant_witness:
  "is_blank [] \<and> is_blank '' \<newline>  ''
   \<and> evaluate_output [] constraints =
         Inr [(''word_count'', True), (''no_excluded_words'', True), (''no_analogies'', True)]
   \<and> evaluate_output '' \<newline>  '' constraints =
         Inr [(''word_count'', True), (''no_excluded_words'', True), (''no_analogies'', True)]"
proof -
  have e: "is_blank []" by (simp add: is_blank_def)
  have b: "is_blank '' \<newline>  ''" by (simp add: is_blank_def isspace_def)
  from blank_response_compliant [OF e] blank_response_compliant [OF b] e b
  show ?thesis by simp
qed

subsection \<open>The refinement step\<close>

lemma format_base: "\<exists>p. format constraint_prompt base_parameters = Inr p"
  by (simp add: constraint_prompt_def base_parameters_def)

lemma format_refined: "\<exists>p. format constraint_prompt refined_parameters = Inr p"
  by (simp add: constraint_prompt_def refined_parameters_def)

lemma evaluation_cell_pass:
  assumes "evaluate_output response constraints = Inr res" and "all_values res"
  shows "evaluation_cell m response w =
     Inr (\<lparr>evaluation_results = res, refined_prompt = None, refined_response = None,
            refined_evaluation = None\<rparr>,
          w\<lparr>stdout := stdout w @ [[PStr ''Evaluation results:'', PDict res]]\<rparr>)"
  using assms by (simp add: evaluation_cell_def print_def)

lemma evaluation_cell_fail:
  assumes "evaluate_output response constraints = Inr res" and "\<not> all_values res"
    and "format constraint_prompt refined_parameters = Inr prompt"
    and "evaluate_output (m (length (invocations w)) prompt) constraints = Inr refined"
  shows "evaluation_cell m response w =
     Inr (\<lparr>evaluation_results = res, refined_prompt = Some prompt,
            refined_response = Some (m (length (invocations w)) prompt),
            refined_evaluation = Some refined\<rparr>,
          w\<lparr>invocations := invocations w @ [prompt],
            stdout := stdout w @
              [[PStr ''Evaluation results:'', PDict res],
               [PStr ''\<newline>Refined response:\<newline>'', PStr (m (length (invocations w)) prompt)],
               [PStr ''\<newline>Refined evaluation results:'', PDict refined]]\<rparr>)"
  using assms by (simp add: evaluation_cell_def print_def get_response_def)


lemma evaluate_output_returns: "\<exists>res. evaluate_output r constraints = Inr res"
  by (simp add: evaluate_output_constraints)

lemma evaluation_cell_run:
  "\<exists>vars w'. evaluation_cell m response w = Inr (vars, w')
     \<and> evaluate_output response constraints = Inr (evaluation_results vars)
     \<and> (all_values (evaluation_results vars) \<longrightarrow>
          refined_prompt vars = None \<and> refined_response vars = None
          \<and> refined_evaluation vars = None
          \<and> invocations w' = invocations w
          \<and> stdout w' = stdout w @ [[PStr ''Evaluation results:'', PDict (evaluation_results vars)]])
     \<and> (\<not> all_values (evaluation_results vars) \<longrightarrow>
          (\<exists>prompt reply refined.
             format constraint_prompt refined_parameters = Inr prompt
             \<and> reply = m (length (invocations w)) prompt
             \<and> evaluate_output reply constraints = Inr refined
             \<and> refined_prompt vars = Some prompt \<and> refined_response vars = Some reply
             \<and> refined_evaluation vars = Some refined
             \<and> invocations w' = invocations w @ [prompt]
             \<and> stdout w' = stdout w @
                  [[PStr ''Evaluation results:'', PDict (evaluation_results vars)],
                   [PStr ''\<newline>Refined response:\<newline>'', PStr reply],
                   [PStr ''\<newline>Refined evaluation results:'', PDict refined]]))"
proof -
  obtain res where res: "evaluate_output response constraints = Inr res"
    using evaluate_output_returns by blast
  show ?thesis
  proof (cases "all_values res")
    case True
    from evaluation_cell_pass [OF res True, of m w] res True show ?thesis by simp
  next
    case False
    obtain prompt where p: "format constraint_prompt refined_parameters = Inr prompt"
      using format_refined by blast
    obtain refined where r: "evaluate_output (m (length (invocations w)) prompt) constraints = Inr refined"
      using evaluate_output_returns by blast
    have "evaluation_cell m response w =
     Inr (\<lparr>evaluation_results = res, refined_prompt = Some prompt,
            refined_response = Some (m (length (invocations w)) prompt),
            refined_evaluation = Some refined\<rparr>,
          w\<lparr>invocations := invocations w @ [prompt],
            stdout := stdout w @
              [[PStr ''Evaluation results:'', PDict res],
               [PStr ''\<newline>Refined response:\<newline>'', PStr (m (length (invocations w)) prompt)],
               [PStr ''\<newline>Refined evaluation results:'', PDict refined]]\<rparr>)"
      using res False p r by (rule evaluation_cell_fail)
    with res False p r show ?thesis by simp
  qed
qed


text \<open>
  C1. The evaluation cell always returns, and it makes a refined evaluation if and only
  if some constraint of the first evaluation is false. When every constraint is true it
  binds no refined prompt, response or evaluation and sends nothing to the model; when
  some constraint is false it formats the refined prompt, sends it once, and evaluates
  the reply once.
\<close>

theorem refinement_iff_failure:
  "\<exists>vars w'. evaluation_cell m response w = Inr (vars, w')
     \<and> evaluate_output response constraints = Inr (evaluation_results vars)
     \<and> ((refined_evaluation vars \<noteq> None) = (\<exists>(name, v)\<in>set (evaluation_results vars). \<not> v))
     \<and> (all_values (evaluation_results vars) \<longrightarrow>
          refined_prompt vars = None \<and> refined_response vars = None
          \<and> refined_evaluation vars = None
          \<and> invocations w' = invocations w
          \<and> stdout w' = stdout w @ [[PStr ''Evaluation results:'', PDict (evaluation_results vars)]])
     \<and> (\<not> all_values (evaluation_results vars) \<longrightarrow>
          (\<exists>prompt reply refined.
             format constraint_prompt refined_parameters = Inr prompt
             \<and> reply = m (length (invocations w)) prompt
             \<and> evaluate_output reply constraints = Inr refined
             \<and> refined_prompt vars = Some prompt \<and> refined_response vars = Some reply
             \<and> refined_evaluation vars = Some refined
             \<and> invocations w' = invocations w @ [prompt]
             \<and> stdout w' = stdout w @
                  [[PStr ''Evaluation results:'', PDict (evaluation_results vars)],
                   [PStr ''\<newline>Refined response:\<newline>'', PStr reply],
                   [PStr ''\<newline>Refined evaluation results:'', PDict refined]]))"
proof -
  from evaluation_cell_run [of m response w]
  obtain vars w' where run: "evaluation_cell m response w = Inr (vars, w')"
    and ev: "evaluate_output response constraints = Inr (evaluation_results vars)"
    and pass: "all_values (evaluation_results vars) \<longrightarrow>
          refined_prompt vars = None \<and> refined_response vars = None
          \<and> refined_evaluation vars = None
          \<and> invocations w' = invocations w
          \<and> stdout w' = stdout w @ [[PStr ''Evaluation results:'', PDict (evaluation_results vars)]]"
    and fail: "\<not> all_values (evaluation_results vars) \<longrightarrow>
          (\<exists>prompt reply refined.
             format constraint_prompt refined_parameters = Inr prompt
             \<and> reply = m (length (invocations w)) prompt
             \<and> evaluate_output reply constraints = Inr refined
             \<and> refined_prompt vars = Some prompt \<and> refined_response vars = Some reply
             \<and> refined_evaluation vars = Some refined
             \<and> invocations w' = invocations w @ [prompt]
             \<and> stdout w' = stdout w @
                  [[PStr ''Evaluation results:'', PDict (evaluation_results vars)],
                   [PStr ''\<newline>Refined response:\<newline>'', PStr reply],
                   [PStr ''\<newline>Refined evaluation results:'', PDict refined]])"
    by blast
  have some: "(\<not> all_values (evaluation_results vars)) =
      (\<exists>(name, v)\<in>set (evaluation_results vars). \<not> v)"
    by (force simp: all_values_def list_all_iff)
  have "(refined_evaluation vars \<noteq> None) = (\<not> all_values (evaluation_results vars))"
    using pass fail by (cases "all_values (evaluation_results vars)") auto
  with some have "(refined_evaluation vars \<noteq> None) =
      (\<exists>(name, v)\<in>set (evaluation_results vars). \<not> v)" by simp
  with run ev pass fail show ?thesis by blast
qed

theorem refinement_iff_failure_witness:
  "(\<exists>vars w'. evaluation_cell (\<lambda>(n::nat) (p::string). ''ok'') ''It is fast.''
                 \<lparr>invocations = [], stdout = []\<rparr> = Inr (vars, w')
       \<and> all_values (evaluation_results vars)
       \<and> refined_prompt vars = None \<and> refined_evaluation vars = None \<and> invocations w' = [])
   \<and> (\<exists>vars w' prompt refined. evaluation_cell (\<lambda>(n::nat) (p::string). ''ok'') ''It is like water''
                 \<lparr>invocations = [], stdout = []\<rparr> = Inr (vars, w')
       \<and> \<not> all_values (evaluation_results vars)
       \<and> refined_prompt vars = Some prompt \<and> refined_response vars = Some ''ok''
       \<and> refined_evaluation vars = Some refined \<and> invocations w' = [prompt])"
proof -
  let ?m = "\<lambda>(n::nat) (p::string). ''ok''"
  let ?w = "\<lparr>invocations = [], stdout = []\<rparr>"
  have e1: "evaluate_output ''It is fast.'' constraints =
      Inr [(''word_count'', True), (''no_excluded_words'', True), (''no_analogies'', True)]"
    by code_simp
  have e2: "evaluate_output ''It is like water'' constraints =
      Inr [(''word_count'', True), (''no_excluded_words'', True), (''no_analogies'', False)]"
    by code_simp
  have a: "\<exists>vars w'. evaluation_cell ?m ''It is fast.'' ?w = Inr (vars, w')
       \<and> all_values (evaluation_results vars)
       \<and> refined_prompt vars = None \<and> refined_evaluation vars = None \<and> invocations w' = []"
  proof -
    from refinement_iff_failure [of ?m "''It is fast.''" ?w]
    obtain vars w' where run: "evaluation_cell ?m ''It is fast.'' ?w = Inr (vars, w')"
      and ev: "evaluate_output ''It is fast.'' constraints = Inr (evaluation_results vars)"
      and pass: "all_values (evaluation_results vars) \<longrightarrow>
          refined_prompt vars = None \<and> refined_response vars = None
          \<and> refined_evaluation vars = None
          \<and> invocations w' = invocations ?w
          \<and> stdout w' = stdout ?w @ [[PStr ''Evaluation results:'', PDict (evaluation_results vars)]]"
      by blast
    from ev e1 have "evaluation_results vars =
        [(''word_count'', True), (''no_excluded_words'', True), (''no_analogies'', True)]" by simp
    then have "all_values (evaluation_results vars)" by (simp add: all_values_def)
    with pass run show ?thesis by auto
  qed
  have b: "\<exists>vars w' prompt refined. evaluation_cell ?m ''It is like water'' ?w = Inr (vars, w')
       \<and> \<not> all_values (evaluation_results vars)
       \<and> refined_prompt vars = Some prompt \<and> refined_response vars = Some ''ok''
       \<and> refined_evaluation vars = Some refined \<and> invocations w' = [prompt]"
  proof -
    from refinement_iff_failure [of ?m "''It is like water''" ?w]
    obtain vars w' where run: "evaluation_cell ?m ''It is like water'' ?w = Inr (vars, w')"
      and ev: "evaluate_output ''It is like water'' constraints = Inr (evaluation_results vars)"
      and fail: "\<not> all_values (evaluation_results vars) \<longrightarrow>
          (\<exists>prompt reply refined.
             format constraint_prompt refined_parameters = Inr prompt
             \<and> reply = ?m (length (invocations ?w)) prompt
             \<and> evaluate_output reply constraints = Inr refined
             \<and> refined_prompt vars = Some prompt \<and> refined_response vars = Some reply
             \<and> refined_evaluation vars = Some refined
             \<and> invocations w' = invocations ?w @ [prompt]
             \<and> stdout w' = stdout ?w @
                  [[PStr ''Evaluation results:'', PDict (evaluation_results vars)],
                   [PStr ''\<newline>Refined response:\<newline>'', PStr reply],
                   [PStr ''\<newline>Refined evaluation results:'', PDict refined]])"
      by blast
    from ev e2 have "evaluation_results vars =
        [(''word_count'', True), (''no_excluded_words'', True), (''no_analogies'', False)]" by simp
    then have n: "\<not> all_values (evaluation_results vars)" by (simp add: all_values_def)
    with fail obtain prompt refined where "refined_prompt vars = Some prompt"
      and "refined_response vars = Some ''ok''" and "refined_evaluation vars = Some refined"
      and "invocations w' = [prompt]" by auto
    with run n show ?thesis by blast
  qed
  from a b show ?thesis by blast
qed

subsection \<open>The evaluator on a store\<close>

lemma fetch_append: "a < length h \<Longrightarrow> fetch (h @ h') a = fetch h a"
  by (simp add: fetch_def nth_append)

lemma fetch_Some_less: "fetch h a = Some x \<Longrightarrow> a < length h"
  by (simp add: fetch_def split: if_splits)

lemma fetch_fresh: "fetch (h @ [x]) (length h) = Some x"
  by (simp add: fetch_def)

lemma evaluate_loop_at_eq:
  assumes out: "fetch h out = Some (StrObj r)" and con: "fetch h con = Some (ConstraintDict C)"
  shows "k \<le> length C \<Longrightarrow>
     evaluate_loop_at out con (length h) (length C) [k..<length C] (h @ [ResultDict acc]) =
       (case evaluate_loop r (drop k C) acc of
          Inl e \<Rightarrow> Inl e
        | Inr v \<Rightarrow> Inr (h @ [ResultDict v]))"
proof (induction "length C - k" arbitrary: k acc)
  case 0
  then have "k = length C" by simp
  then show ?case by simp
next
  case (Suc n)
  then have k: "k < length C" by simp
  obtain c f where cf: "C ! k = (c, f)" by (cases "C ! k")
  from k have up: "[k..<length C] = k # [Suc k..<length C]" by (simp add: upt_conv_Cons)
  from k cf have dr: "drop k C = (c, f) # drop (Suc k) C" by (simp add: Cons_nth_drop_Suc [symmetric])
  from out have o: "fetch (h @ [ResultDict acc]) out = Some (StrObj r)"
    by (simp add: fetch_append fetch_Some_less)
  from con have cn: "fetch (h @ [ResultDict acc]) con = Some (ConstraintDict C)"
    by (simp add: fetch_append fetch_Some_less)
  show ?case
  proof (cases "f r")
    case (Inl e)
    then show ?thesis using k by (simp add: up dr o cn cf)
  next
    case (Inr v)
    from Suc.hyps(2) k have n: "n = length C - Suc k" and le: "Suc k \<le> length C" by simp_all
    have ih: "evaluate_loop_at out con (length h) (length C) [Suc k..<length C]
                (h @ [ResultDict (AList.update c v acc)]) =
       (case evaluate_loop r (drop (Suc k) C) (AList.update c v acc) of
          Inl e \<Rightarrow> Inl e
        | Inr v \<Rightarrow> Inr (h @ [ResultDict v]))"
      using n le by (rule Suc.hyps(1))
    from Inr k show ?thesis by (simp add: up dr o cn cf fetch_fresh ih)
  qed
qed

lemma evaluate_output_at_eq:
  assumes out: "fetch h out = Some (StrObj r)" and con: "fetch h con = Some (ConstraintDict C)"
  shows "evaluate_output_at out con h =
       (case evaluate_output r C of
          Inl e \<Rightarrow> Inl e
        | Inr v \<Rightarrow> Inr (length h, h @ [ResultDict v]))"
proof -
  from con have cn: "fetch (h @ [ResultDict []]) con = Some (ConstraintDict C)"
    by (simp add: fetch_append fetch_Some_less)
  have "evaluate_loop_at out con (length h) (length C) [0..<length C] (h @ [ResultDict []]) =
       (case evaluate_loop r (drop 0 C) [] of
          Inl e \<Rightarrow> Inl e
        | Inr v \<Rightarrow> Inr (h @ [ResultDict v]))"
    using out con by (rule evaluate_loop_at_eq) simp
  then show ?thesis
    by (simp add: evaluate_output_at_def evaluate_output_def cn Let_def split: sum.splits)
qed

subsection \<open>The whole cycle\<close>

lemma constraint_cell_run:
  assumes "format constraint_prompt base_parameters = Inr p0"
  shows "constraint_cell m w =
     Inr (m (length (invocations w)) p0,
          w\<lparr>invocations := invocations w @ [p0],
            stdout := stdout w @ [[PStr (m (length (invocations w)) p0)]]\<rparr>)"
  using assms by (simp add: constraint_cell_def get_response_def print_def)

text \<open>
  C2. The two cells together always return, having sent the model the first prompt and,
  when a refined response was produced, the refined prompt after it: one or two
  prompts, never a third, also when the refined evaluation still has a false
  constraint. At most four lines are printed.
\<close>

theorem at_most_two_generations:
  "\<exists>vars w' p0. negative_prompt_cycle m w = Inr (vars, w')
     \<and> format constraint_prompt base_parameters = Inr p0
     \<and> (if refined_response vars = None
         then invocations w' = invocations w @ [p0]
         else (\<exists>p1. format constraint_prompt refined_parameters = Inr p1
                 \<and> invocations w' = invocations w @ [p0, p1]))
     \<and> length (invocations w') \<le> length (invocations w) + 2
     \<and> length (stdout w') \<le> length (stdout w) + 4
     \<and> (\<forall>refined. refined_evaluation vars = Some refined \<and> \<not> all_values refined \<longrightarrow>
            length (invocations w') = length (invocations w) + 2)"
proof -
  obtain p0 where p0: "format constraint_prompt base_parameters = Inr p0"
    using format_base by blast
  let ?response = "m (length (invocations w)) p0"
  let ?w1 = "w\<lparr>invocations := invocations w @ [p0], stdout := stdout w @ [[PStr ?response]]\<rparr>"
  have cyc: "negative_prompt_cycle m w = evaluation_cell m ?response ?w1"
    by (simp add: negative_prompt_cycle_def constraint_cell_run [OF p0])
  from evaluation_cell_run [of m ?response ?w1]
  obtain vars w' where run: "evaluation_cell m ?response ?w1 = Inr (vars, w')"
    and pass: "all_values (evaluation_results vars) \<longrightarrow>
          refined_prompt vars = None \<and> refined_response vars = None
          \<and> refined_evaluation vars = None
          \<and> invocations w' = invocations ?w1
          \<and> stdout w' = stdout ?w1 @ [[PStr ''Evaluation results:'', PDict (evaluation_results vars)]]"
    and fail: "\<not> all_values (evaluation_results vars) \<longrightarrow>
          (\<exists>prompt reply refined.
             format constraint_prompt refined_parameters = Inr prompt
             \<and> reply = m (length (invocations ?w1)) prompt
             \<and> evaluate_output reply constraints = Inr refined
             \<and> refined_prompt vars = Some prompt \<and> refined_response vars = Some reply
             \<and> refined_evaluation vars = Some refined
             \<and> invocations w' = invocations ?w1 @ [prompt]
             \<and> stdout w' = stdout ?w1 @
                  [[PStr ''Evaluation results:'', PDict (evaluation_results vars)],
                   [PStr ''\<newline>Refined response:\<newline>'', PStr reply],
                   [PStr ''\<newline>Refined evaluation results:'', PDict refined]])"
    by blast
  show ?thesis
  proof (cases "all_values (evaluation_results vars)")
    case True
    with pass have "refined_response vars = None" and "refined_evaluation vars = None"
      and "invocations w' = invocations w @ [p0]"
      and "stdout w' = stdout w @ [[PStr ?response], [PStr ''Evaluation results:'', PDict (evaluation_results vars)]]"
      by simp_all
    with cyc run p0 show ?thesis by auto
  next
    case False
    with fail obtain p1 reply refined where "format constraint_prompt refined_parameters = Inr p1"
      and "refined_response vars = Some reply" and "refined_evaluation vars = Some refined"
      and "invocations w' = invocations w @ [p0, p1]"
      and "stdout w' = stdout w @
                  [[PStr ?response], [PStr ''Evaluation results:'', PDict (evaluation_results vars)],
                   [PStr ''\<newline>Refined response:\<newline>'', PStr reply],
                   [PStr ''\<newline>Refined evaluation results:'', PDict refined]]"
      by auto
    with cyc run p0 show ?thesis by auto
  qed
qed

theorem at_most_two_generations_witness:
  "\<exists>vars w' p0 p1. negative_prompt_cycle (\<lambda>(n::nat) (p::string). ''It thinks like a robot'')
         \<lparr>invocations = [], stdout = []\<rparr> = Inr (vars, w')
     \<and> invocations w' = [p0, p1]
     \<and> refined_evaluation vars =
          Some [(''word_count'', True), (''no_excluded_words'', False), (''no_analogies'', False)]
     \<and> length (stdout w') \<le> 4"
proof -
  let ?m = "\<lambda>(n::nat) (p::string). ''It thinks like a robot''"
  let ?w = "\<lparr>invocations = [], stdout = []\<rparr>"
  have e: "evaluate_output ''It thinks like a robot'' constraints =
      Inr [(''word_count'', True), (''no_excluded_words'', False), (''no_analogies'', False)]"
    by code_simp
  from at_most_two_generations [of ?m ?w]
  obtain vars w' p0 where run: "negative_prompt_cycle ?m ?w = Inr (vars, w')"
    and inv: "if refined_response vars = None
         then invocations w' = invocations ?w @ [p0]
         else (\<exists>p1. format constraint_prompt refined_parameters = Inr p1
                 \<and> invocations w' = invocations ?w @ [p0, p1])"
    and out: "length (stdout w') \<le> length (stdout ?w) + 4"
    by blast
  obtain b where b: "format constraint_prompt base_parameters = Inr b" using format_base by blast
  obtain q where q: "format constraint_prompt refined_parameters = Inr q" using format_refined by blast
  have v: "refined_evaluation vars =
          Some [(''word_count'', True), (''no_excluded_words'', False), (''no_analogies'', False)]
        \<and> refined_response vars = Some ''It thinks like a robot''"
    using run
    by (simp add: negative_prompt_cycle_def constraint_cell_run [OF b] evaluation_cell_def e
        all_values_def q get_response_def print_def)
       auto
  with inv obtain p1 where "invocations w' = [p0, p1]" by auto
  with run v out show ?thesis by auto
qed

subsection \<open>The refined prompt\<close>

lemma refined_parameters_eq:
  "refined_parameters =
     map (\<lambda>(k, v). (k, if k = ''style'' then v @ '' and concise''
                        else if k = ''excluded_words'' then v @ '', like, as'' else v))
       base_parameters"
  by (simp add: refined_parameters_def base_parameters_def)

lemma refined_prompt_formatted:
  assumes "evaluation_cell m response w = Inr (vars, w')" and "refined_prompt vars = Some p"
  shows "format constraint_prompt refined_parameters = Inr p \<and> invocations w' = invocations w @ [p]"
proof -
  from evaluation_cell_run [of m response w] assms(1)
  have pass: "all_values (evaluation_results vars) \<longrightarrow> refined_prompt vars = None"
    and fail: "\<not> all_values (evaluation_results vars) \<longrightarrow>
          (\<exists>prompt. format constraint_prompt refined_parameters = Inr prompt
             \<and> refined_prompt vars = Some prompt
             \<and> invocations w' = invocations w @ [prompt])"
    by auto
  from pass assms(2) have "\<not> all_values (evaluation_results vars)" by auto
  with fail assms(2) show ?thesis by auto
qed

text \<open>
  C7. The keyword arguments of the refined prompt are those of the first prompt, with
  \<^verbatim>\<open> and concise\<close> appended to the style and \<^verbatim>\<open>, like, as\<close> appended to the excluded
  words; the topic is the same. Whatever the model answered, a refined prompt that the
  evaluation cell binds is the template filled with these arguments, and it is the
  prompt sent.
\<close>

theorem refined_parameters_adjustment:
  "map_of base_parameters ''topic'' = Some ''artificial intelligence''
   \<and> map_of base_parameters ''style'' = Some ''technical''
   \<and> map_of base_parameters ''excluded_words'' = Some ''robot, human-like, science fiction''
   \<and> refined_parameters =
       map (\<lambda>(k, v). (k, if k = ''style'' then v @ '' and concise''
                          else if k = ''excluded_words'' then v @ '', like, as'' else v))
         base_parameters
   \<and> (\<forall>m response w vars w' p.
         evaluation_cell m response w = Inr (vars, w') \<and> refined_prompt vars = Some p \<longrightarrow>
           format constraint_prompt refined_parameters = Inr p
           \<and> invocations w' = invocations w @ [p])"
proof (intro conjI allI impI)
  show "refined_parameters =
       map (\<lambda>(k, v). (k, if k = ''style'' then v @ '' and concise''
                          else if k = ''excluded_words'' then v @ '', like, as'' else v))
         base_parameters"
    by (rule refined_parameters_eq)
next
  fix m response w vars w' p
  assume a: "evaluation_cell m response w = Inr (vars, w') \<and> refined_prompt vars = Some p"
  then show "format constraint_prompt refined_parameters = Inr p"
    using refined_prompt_formatted by blast
  from a show "invocations w' = invocations w @ [p]"
    using refined_prompt_formatted by blast
qed (simp_all add: base_parameters_def)

theorem refined_parameters_adjustment_witness:
  "\<exists>vars w'. evaluation_cell (\<lambda>(n::nat) (p::string). ''ok'') ''It is like water''
          \<lparr>invocations = [], stdout = []\<rparr> = Inr (vars, w')
     \<and> refined_prompt vars =
         Some ''Write a technical and concise description of artificial intelligence.\<newline>    Constraints:\<newline>    1. Do not use any of these words: robot, human-like, science fiction, like, as\<newline>    2. Keep the description under 100 words\<newline>    3. Do not use analogies or metaphors\<newline>    4. Focus only on factual information''
     \<and> format constraint_prompt refined_parameters = Inr (the (refined_prompt vars))
     \<and> invocations w' = [the (refined_prompt vars)]"
proof -
  let ?m = "\<lambda>(n::nat) (p::string). ''ok''"
  let ?w = "\<lparr>invocations = [], stdout = []\<rparr>"
  let ?p = "''Write a technical and concise description of artificial intelligence.\<newline>    Constraints:\<newline>    1. Do not use any of these words: robot, human-like, science fiction, like, as\<newline>    2. Keep the description under 100 words\<newline>    3. Do not use analogies or metaphors\<newline>    4. Focus only on factual information''"
  have e: "evaluate_output ''It is like water'' constraints =
      Inr [(''word_count'', True), (''no_excluded_words'', True), (''no_analogies'', False)]"
    by code_simp
  have f: "format constraint_prompt refined_parameters = Inr ?p"
    by (simp add: constraint_prompt_def refined_parameters_def)
  obtain r where r: "evaluate_output ''ok'' constraints = Inr r"
    using evaluate_output_returns by blast
  let ?V = "\<lparr>evaluation_results =
               [(''word_count'', True), (''no_excluded_words'', True), (''no_analogies'', False)],
             refined_prompt = Some ?p, refined_response = Some ''ok'',
             refined_evaluation = Some r\<rparr>"
  let ?W = "\<lparr>invocations = [?p],
             stdout = [[PStr ''Evaluation results:'',
                        PDict [(''word_count'', True), (''no_excluded_words'', True),
                               (''no_analogies'', False)]],
                       [PStr ''\<newline>Refined response:\<newline>'', PStr ''ok''],
                       [PStr ''\<newline>Refined evaluation results:'', PDict r]]\<rparr>"
  have run: "evaluation_cell ?m ''It is like water'' ?w = Inr (?V, ?W)"
    by (simp add: evaluation_cell_def e f r all_values_def get_response_def print_def)
  from refined_parameters_adjustment
  have "evaluation_cell ?m ''It is like water'' ?w = Inr (?V, ?W) \<and> refined_prompt ?V = Some ?p \<longrightarrow>
           format constraint_prompt refined_parameters = Inr ?p
           \<and> invocations ?W = invocations ?w @ [?p]" by blast
  with run have "format constraint_prompt refined_parameters = Inr ?p" by simp
  with run show ?thesis by simp
qed

subsection \<open>What the evaluator leaves unchanged\<close>

lemma no_excluded_words_three:
  "no_excluded_words x =
     (\<not> str_contains ''robot'' (str_lower x) \<and> \<not> str_contains ''human-like'' (str_lower x)
      \<and> \<not> str_contains ''science fiction'' (str_lower x))"
  by (simp add: no_excluded_words_def forbidden_words_def)

lemma evaluate_output_at_constraints:
  assumes "fetch h out = Some (StrObj x)" and "fetch h con = Some (ConstraintDict C)"
    and "evaluate_output x C = Inr v"
  shows "evaluate_output_at out con h = Inr (length h, h @ [ResultDict v])"
    and "fetch (h @ [ResultDict v]) out = Some (StrObj x)"
    and "fetch (h @ [ResultDict v]) con = Some (ConstraintDict C)"
  using assms by (simp_all add: evaluate_output_at_eq fetch_append fetch_Some_less)

text \<open>
  C8. Both evaluations of the evaluation cell are made against the same constraints:
  the same three names, and \<^verbatim>\<open>no_excluded_words\<close> looks for \<^verbatim>\<open>robot\<close>, \<^verbatim>\<open>human-like\<close> and
  \<^verbatim>\<open>science fiction\<close> only. The words \<^verbatim>\<open>like\<close> and \<^verbatim>\<open>as\<close> go into the refined prompt's
  excluded words and into no check of forbidden words: the response \<^verbatim>\<open>like as\<close> passes
  it. On the store, a call of the evaluator leaves the dictionary of constraints as
  it was.
\<close>

theorem constraints_fixed_across_refinement:
  "(\<forall>m response w vars w'. evaluation_cell m response w = Inr (vars, w') \<longrightarrow>
      evaluate_output response constraints = Inr (evaluation_results vars)
      \<and> (\<forall>reply. refined_response vars = Some reply \<longrightarrow>
            (\<exists>refined. refined_evaluation vars = Some refined
               \<and> evaluate_output reply constraints = Inr refined
               \<and> map fst refined = map fst (evaluation_results vars))))
   \<and> (\<forall>x. evaluate_output x constraints =
          Inr [(''word_count'', word_count x),
               (''no_excluded_words'',
                  list_all (\<lambda>word. \<not> str_contains word (str_lower x))
                    [''robot'', ''human-like'', ''science fiction'']),
               (''no_analogies'', no_analogies x)])
   \<and> (\<forall>x. no_excluded_words x =
          (\<not> str_contains ''robot'' (str_lower x) \<and> \<not> str_contains ''human-like'' (str_lower x)
           \<and> \<not> str_contains ''science fiction'' (str_lower x)))
   \<and> no_excluded_words ''like as''
   \<and> map_of refined_parameters ''excluded_words'' =
        Some ''robot, human-like, science fiction, like, as''
   \<and> (\<forall>h out con x. fetch h out = Some (StrObj x) \<and> fetch h con = Some (ConstraintDict constraints) \<longrightarrow>
          (\<exists>a h'. evaluate_output_at out con h = Inr (a, h')
             \<and> fetch h' con = Some (ConstraintDict constraints)
             \<and> fetch h' out = Some (StrObj x)))"
proof (intro conjI allI impI)
  fix m response w vars w'
  assume run: "evaluation_cell m response w = Inr (vars, w')"
  from evaluation_cell_run [of m response w] run
  have ev: "evaluate_output response constraints = Inr (evaluation_results vars)"
    and pass: "all_values (evaluation_results vars) \<longrightarrow> refined_response vars = None"
    and fail: "\<not> all_values (evaluation_results vars) \<longrightarrow>
          (\<exists>reply refined. evaluate_output reply constraints = Inr refined
             \<and> refined_response vars = Some reply
             \<and> refined_evaluation vars = Some refined)"
    by auto
  from ev show "evaluate_output response constraints = Inr (evaluation_results vars)" .
  fix reply
  assume r: "refined_response vars = Some reply"
  with pass have "\<not> all_values (evaluation_results vars)" by auto
  with fail r obtain refined where a: "refined_evaluation vars = Some refined"
    and b: "evaluate_output reply constraints = Inr refined" by auto
  from ev have "evaluation_results vars =
      [(''word_count'', word_count response), (''no_excluded_words'', no_excluded_words response),
       (''no_analogies'', no_analogies response)]"
    by (simp add: evaluate_output_constraints)
  moreover from b have "refined =
      [(''word_count'', word_count reply), (''no_excluded_words'', no_excluded_words reply),
       (''no_analogies'', no_analogies reply)]"
    by (simp add: evaluate_output_constraints)
  ultimately have "map fst refined = map fst (evaluation_results vars)" by simp
  with a b show "\<exists>refined. refined_evaluation vars = Some refined
               \<and> evaluate_output reply constraints = Inr refined
               \<and> map fst refined = map fst (evaluation_results vars)" by blast
next
  fix x
  show "evaluate_output x constraints =
          Inr [(''word_count'', word_count x),
               (''no_excluded_words'',
                  list_all (\<lambda>word. \<not> str_contains word (str_lower x))
                    [''robot'', ''human-like'', ''science fiction'']),
               (''no_analogies'', no_analogies x)]"
    by (simp add: evaluate_output_constraints no_excluded_words_def forbidden_words_def)
  show "no_excluded_words x =
          (\<not> str_contains ''robot'' (str_lower x) \<and> \<not> str_contains ''human-like'' (str_lower x)
           \<and> \<not> str_contains ''science fiction'' (str_lower x))"
    by (rule no_excluded_words_three)
next
  show "no_excluded_words ''like as''" by code_simp
  show "map_of refined_parameters ''excluded_words'' =
        Some ''robot, human-like, science fiction, like, as''"
    by (simp add: refined_parameters_def)
next
  fix h out con x
  assume a: "fetch h out = Some (StrObj x) \<and> fetch h con = Some (ConstraintDict constraints)"
  obtain v where v: "evaluate_output x constraints = Inr v"
    using evaluate_output_returns by blast
  from a have o: "fetch h out = Some (StrObj x)"
    and c: "fetch h con = Some (ConstraintDict constraints)" by simp_all
  from o c v have "evaluate_output_at out con h = Inr (length h, h @ [ResultDict v])"
    and "fetch (h @ [ResultDict v]) con = Some (ConstraintDict constraints)"
    and "fetch (h @ [ResultDict v]) out = Some (StrObj x)"
    by (rule evaluate_output_at_constraints)+
  then show "\<exists>a h'. evaluate_output_at out con h = Inr (a, h')
             \<and> fetch h' con = Some (ConstraintDict constraints)
             \<and> fetch h' out = Some (StrObj x)" by blast
qed

theorem constraints_fixed_across_refinement_witness:
  "fetch [StrObj ''as you like'', ConstraintDict constraints] 0 = Some (StrObj ''as you like'')
   \<and> fetch [StrObj ''as you like'', ConstraintDict constraints] 1 = Some (ConstraintDict constraints)
   \<and> (\<exists>a h'. evaluate_output_at 0 1 [StrObj ''as you like'', ConstraintDict constraints] = Inr (a, h')
          \<and> fetch h' 1 = Some (ConstraintDict constraints))
   \<and> evaluate_output ''as you like'' constraints =
        Inr [(''word_count'', True), (''no_excluded_words'', True), (''no_analogies'', False)]"
proof -
  let ?h = "[StrObj ''as you like'', ConstraintDict constraints]"
  have f0: "fetch ?h 0 = Some (StrObj ''as you like'')" by (simp add: fetch_def)
  have f1: "fetch ?h 1 = Some (ConstraintDict constraints)" by (simp add: fetch_def)
  from constraints_fixed_across_refinement
  have "fetch ?h 0 = Some (StrObj ''as you like'') \<and> fetch ?h 1 = Some (ConstraintDict constraints) \<longrightarrow>
          (\<exists>a h'. evaluate_output_at 0 1 ?h = Inr (a, h')
             \<and> fetch h' 1 = Some (ConstraintDict constraints)
             \<and> fetch h' 0 = Some (StrObj ''as you like''))" by blast
  with f0 f1 have a: "\<exists>a h'. evaluate_output_at 0 1 ?h = Inr (a, h')
          \<and> fetch h' 1 = Some (ConstraintDict constraints)" by blast
  have e: "evaluate_output ''as you like'' constraints =
        Inr [(''word_count'', True), (''no_excluded_words'', True), (''no_analogies'', False)]"
    by code_simp
  from f0 f1 a e show ?thesis by blast
qed

text \<open>
  C10. On a store that holds the response and the dictionary of constraints, a call of
  the evaluator returns what the evaluator on values returns; when it returns, its
  result is one new object, every object that was there is as it was (the response and
  the constraints among them), and a second call returns a result with the same
  content, leaving the first result as it was.
\<close>

theorem evaluate_output_at_frame:
  "fetch h out = Some (StrObj r) \<and> fetch h con = Some (ConstraintDict C) \<longrightarrow>
     evaluate_output_at out con h =
       (case evaluate_output r C of
          Inl e \<Rightarrow> Inl e
        | Inr v \<Rightarrow> Inr (length h, h @ [ResultDict v]))
     \<and> (\<forall>a h'. evaluate_output_at out con h = Inr (a, h') \<longrightarrow>
           a = length h \<and> fetch h a = None
           \<and> (\<forall>b<length h. fetch h' b = fetch h b)
           \<and> fetch h' out = Some (StrObj r) \<and> fetch h' con = Some (ConstraintDict C)
           \<and> (\<exists>v a2 h2. evaluate_output r C = Inr v \<and> fetch h' a = Some (ResultDict v)
                 \<and> evaluate_output_at out con h' = Inr (a2, h2)
                 \<and> fetch h2 a2 = Some (ResultDict v) \<and> fetch h2 a = Some (ResultDict v)
                 \<and> fetch h2 out = Some (StrObj r) \<and> fetch h2 con = Some (ConstraintDict C)))
     \<and> (\<forall>e. evaluate_output_at out con h = Inl e \<longrightarrow> evaluate_output r C = Inl e)"
proof (intro impI)
  assume a: "fetch h out = Some (StrObj r) \<and> fetch h con = Some (ConstraintDict C)"
  then have o: "fetch h out = Some (StrObj r)" and c: "fetch h con = Some (ConstraintDict C)"
    by simp_all
  have eq: "evaluate_output_at out con h =
       (case evaluate_output r C of
          Inl e \<Rightarrow> Inl e
        | Inr v \<Rightarrow> Inr (length h, h @ [ResultDict v]))"
    using o c by (rule evaluate_output_at_eq)
  have raised: "\<forall>e. evaluate_output_at out con h = Inl e \<longrightarrow> evaluate_output r C = Inl e"
    using eq by (simp split: sum.splits)
  have returned: "\<forall>a h'. evaluate_output_at out con h = Inr (a, h') \<longrightarrow>
           a = length h \<and> fetch h a = None
           \<and> (\<forall>b<length h. fetch h' b = fetch h b)
           \<and> fetch h' out = Some (StrObj r) \<and> fetch h' con = Some (ConstraintDict C)
           \<and> (\<exists>v a2 h2. evaluate_output r C = Inr v \<and> fetch h' a = Some (ResultDict v)
                 \<and> evaluate_output_at out con h' = Inr (a2, h2)
                 \<and> fetch h2 a2 = Some (ResultDict v) \<and> fetch h2 a = Some (ResultDict v)
                 \<and> fetch h2 out = Some (StrObj r) \<and> fetch h2 con = Some (ConstraintDict C))"
  proof (intro allI impI)
    fix a h'
    assume run: "evaluate_output_at out con h = Inr (a, h')"
    with eq obtain v where v: "evaluate_output r C = Inr v" and a: "a = length h"
      and h': "h' = h @ [ResultDict v]"
      by (auto split: sum.splits)
    from a have none: "fetch h a = None" by (simp add: fetch_def)
    from h' have old: "\<forall>b<length h. fetch h' b = fetch h b" by (simp add: fetch_append)
    from h' o have o': "fetch h' out = Some (StrObj r)" by (simp add: fetch_append fetch_Some_less)
    from h' c have c': "fetch h' con = Some (ConstraintDict C)"
      by (simp add: fetch_append fetch_Some_less)
    have first: "fetch h' a = Some (ResultDict v)" using a h' by (simp add: fetch_fresh)
    have again: "evaluate_output_at out con h' = Inr (length h', h' @ [ResultDict v])"
      using o' c' v by (rule evaluate_output_at_constraints)
    have "fetch (h' @ [ResultDict v]) (length h') = Some (ResultDict v)" by (rule fetch_fresh)
    moreover have "fetch (h' @ [ResultDict v]) a = Some (ResultDict v)"
      using first by (simp add: fetch_append fetch_Some_less)
    moreover have "fetch (h' @ [ResultDict v]) out = Some (StrObj r)"
      using o' by (simp add: fetch_append fetch_Some_less)
    moreover have "fetch (h' @ [ResultDict v]) con = Some (ConstraintDict C)"
      using c' by (simp add: fetch_append fetch_Some_less)
    ultimately have "\<exists>v a2 h2. evaluate_output r C = Inr v \<and> fetch h' a = Some (ResultDict v)
                 \<and> evaluate_output_at out con h' = Inr (a2, h2)
                 \<and> fetch h2 a2 = Some (ResultDict v) \<and> fetch h2 a = Some (ResultDict v)
                 \<and> fetch h2 out = Some (StrObj r) \<and> fetch h2 con = Some (ConstraintDict C)"
      using v first again by blast
    with a none old o' c' show "a = length h \<and> fetch h a = None
           \<and> (\<forall>b<length h. fetch h' b = fetch h b)
           \<and> fetch h' out = Some (StrObj r) \<and> fetch h' con = Some (ConstraintDict C)
           \<and> (\<exists>v a2 h2. evaluate_output r C = Inr v \<and> fetch h' a = Some (ResultDict v)
                 \<and> evaluate_output_at out con h' = Inr (a2, h2)
                 \<and> fetch h2 a2 = Some (ResultDict v) \<and> fetch h2 a = Some (ResultDict v)
                 \<and> fetch h2 out = Some (StrObj r) \<and> fetch h2 con = Some (ConstraintDict C))"
      by blast
  qed
  from eq returned raised show "evaluate_output_at out con h =
       (case evaluate_output r C of
          Inl e \<Rightarrow> Inl e
        | Inr v \<Rightarrow> Inr (length h, h @ [ResultDict v]))
     \<and> (\<forall>a h'. evaluate_output_at out con h = Inr (a, h') \<longrightarrow>
           a = length h \<and> fetch h a = None
           \<and> (\<forall>b<length h. fetch h' b = fetch h b)
           \<and> fetch h' out = Some (StrObj r) \<and> fetch h' con = Some (ConstraintDict C)
           \<and> (\<exists>v a2 h2. evaluate_output r C = Inr v \<and> fetch h' a = Some (ResultDict v)
                 \<and> evaluate_output_at out con h' = Inr (a2, h2)
                 \<and> fetch h2 a2 = Some (ResultDict v) \<and> fetch h2 a = Some (ResultDict v)
                 \<and> fetch h2 out = Some (StrObj r) \<and> fetch h2 con = Some (ConstraintDict C)))
     \<and> (\<forall>e. evaluate_output_at out con h = Inl e \<longrightarrow> evaluate_output r C = Inl e)"
    by (intro conjI)
qed

theorem evaluate_output_at_frame_witness:
  "fetch [StrObj ''like a robot'', ConstraintDict constraints] 0 = Some (StrObj ''like a robot'')
   \<and> fetch [StrObj ''like a robot'', ConstraintDict constraints] 1 = Some (ConstraintDict constraints)
   \<and> evaluate_output_at 0 1 [StrObj ''like a robot'', ConstraintDict constraints] =
       Inr (2, [StrObj ''like a robot'', ConstraintDict constraints,
                ResultDict [(''word_count'', True), (''no_excluded_words'', False),
                            (''no_analogies'', False)]])"
proof -
  let ?h = "[StrObj ''like a robot'', ConstraintDict constraints]"
  have f0: "fetch ?h 0 = Some (StrObj ''like a robot'')" by (simp add: fetch_def)
  have f1: "fetch ?h 1 = Some (ConstraintDict constraints)" by (simp add: fetch_def)
  have e: "evaluate_output ''like a robot'' constraints =
        Inr [(''word_count'', True), (''no_excluded_words'', False), (''no_analogies'', False)]"
    by code_simp
  from f0 f1 evaluate_output_at_frame [of ?h 0 "''like a robot''" 1 constraints]
  have "evaluate_output_at 0 1 ?h =
       (case evaluate_output ''like a robot'' constraints of
          Inl e \<Rightarrow> Inl e
        | Inr v \<Rightarrow> Inr (length ?h, ?h @ [ResultDict v]))" by blast
  with e have "evaluate_output_at 0 1 ?h =
       Inr (2, [StrObj ''like a robot'', ConstraintDict constraints,
                ResultDict [(''word_count'', True), (''no_excluded_words'', False),
                            (''no_analogies'', False)]])" by simp
  with f0 f1 show ?thesis by blast
qed

end
